theory Spec2Isabelle
  imports Main "HOL-Library.Sublist" "HOL-Library.Word"
begin

section \<open>Strings of the host language\<close>

text \<open>
  A source string is a sequence of 16-bit code units. A code unit is a 16-bit word, a
  string the list of its code units; \<open>js\<close> turns a literal of the theory into the source
  string with the same characters.
\<close>

type_synonym codeunit = "16 word"

type_synonym jsstring = "codeunit list"

definition js :: "string \<Rightarrow> jsstring" where
  "js s = map of_char s"

text \<open>
  The case mappings \<open>s.toUpperCase()\<close> and \<open>s.toLowerCase()\<close> are computed by the host
  from the case tables of the Unicode standard, which are not part of the repository.
  They are a parameter of every function that calls them: what is proved for every
  \<open>host\<close> holds for the tables of the real one.
\<close>

record host =
  toUpperCase :: "jsstring \<Rightarrow> jsstring"
  toLowerCase :: "jsstring \<Rightarrow> jsstring"

text \<open>
  The class \<open>\w\<close> of a regular expression without flags: the letters \<open>A\<close> to \<open>Z\<close> and
  \<open>a\<close> to \<open>z\<close>, the digits and the underscore.
\<close>

definition is_word_char :: "codeunit \<Rightarrow> bool" where
  "is_word_char c =
     ((65 \<le> c \<and> c \<le> 90) \<or> (97 \<le> c \<and> c \<le> 122) \<or> (48 \<le> c \<and> c \<le> 57) \<or> c = 95)"

text \<open>
  The class \<open>\s\<close>: tab, line feed, vertical tab, form feed, carriage return, space,
  no-break space (U+00A0), U+1680, U+2000 to U+200A, the line and paragraph separators
  (U+2028, U+2029), U+202F, U+205F, U+3000 and the byte order mark (U+FEFF).
\<close>

definition is_space_char :: "codeunit \<Rightarrow> bool" where
  "is_space_char c =
     ((9 \<le> c \<and> c \<le> 13) \<or> c = 32 \<or> c = 160 \<or> c = 5760 \<or> (8192 \<le> c \<and> c \<le> 8202) \<or>
      c = 8232 \<or> c = 8233 \<or> c = 8239 \<or> c = 8287 \<or> c = 12288 \<or> c = 65279)"

text \<open>
  The dot of a regular expression matches every code unit but a line terminator: line
  feed, carriage return, U+2028 and U+2029.
\<close>

definition is_line_terminator :: "codeunit \<Rightarrow> bool" where
  "is_line_terminator c = (c = 10 \<or> c = 13 \<or> c = 8232 \<or> c = 8233)"

text \<open>\<open>s.split(sep)\<close> for a one-character separator: always at least one piece.\<close>

fun js_split :: "codeunit \<Rightarrow> jsstring \<Rightarrow> jsstring list" where
  "js_split sep [] = [[]]"
| "js_split sep (c # cs) =
     (if c = sep then [] # js_split sep cs
      else (case js_split sep cs of
              [] \<Rightarrow> [[c]]
            | w # ws \<Rightarrow> (c # w) # ws))"

text \<open>\<open>s.slice(a, b)\<close>: a negative index counts from the end, both are clamped.\<close>

definition js_slice :: "jsstring \<Rightarrow> int \<Rightarrow> int \<Rightarrow> jsstring" where
  "js_slice s a b =
     (let n = int (length s);
          lo = (if a < 0 then max (n + a) 0 else min a n);
          hi = (if b < 0 then max (n + b) 0 else min b n)
      in take (nat (hi - lo)) (drop (nat lo) s))"

text \<open>\<open>s.includes(t)\<close>: \<open>t\<close> occurs in \<open>s\<close> as a contiguous substring.\<close>

fun js_includes :: "jsstring \<Rightarrow> jsstring \<Rightarrow> bool" where
  "js_includes [] t = (t = [])"
| "js_includes (c # cs) t = (prefix t (c # cs) \<or> js_includes cs t)"

text \<open>\<open>s.startsWith(t)\<close>.\<close>

definition startsWith :: "jsstring \<Rightarrow> jsstring \<Rightarrow> bool" where
  "startsWith s t = prefix t s"

text \<open>\<open>s.replace(/[\[\]]/g, '')\<close>: every bracket (code units 91 and 93) is dropped.\<close>

definition removeBrackets :: "jsstring \<Rightarrow> jsstring" where
  "removeBrackets s = filter (\<lambda>c. c \<noteq> 91 \<and> c \<noteq> 93) s"

text \<open>\<open>s.replace(/lit$/, '')\<close> for a literal \<open>lit\<close>: a trailing \<open>lit\<close> is dropped.\<close>

definition stripTrailing :: "jsstring \<Rightarrow> jsstring \<Rightarrow> jsstring" where
  "stripTrailing lit s = (if suffix lit s then take (length s - length lit) s else s)"

section \<open>The path library\<close>

text \<open>
  \<open>path.parse\<close> of the host's path library, in its POSIX form (\<open>path.sep\<close> is the
  slash), is not part of the repository. It is written here as the library computes it:
  one scan of the path from its end, which finds the last component and its last dot.
\<close>

definition CHAR_FORWARD_SLASH :: codeunit where
  "CHAR_FORWARD_SLASH = 47"

definition CHAR_DOT :: codeunit where
  "CHAR_DOT = 46"

record ParsedPath =
  parsed_root :: jsstring
  parsed_dir :: jsstring
  parsed_base :: jsstring
  parsed_ext :: jsstring
  parsed_name :: jsstring

record parse_state =
  startDot :: int
  startPart :: int
  endPart :: int
  matchedSlash :: bool
  preDotState :: int

fun parse_scan :: "jsstring \<Rightarrow> nat \<Rightarrow> nat \<Rightarrow> parse_state \<Rightarrow> parse_state" where
  "parse_scan p start 0 st = st"
| "parse_scan p start (Suc i) st =
     (if i < start then st
      else if p ! i = CHAR_FORWARD_SLASH then
        (if \<not> matchedSlash st then st\<lparr>startPart := int i + 1\<rparr>
         else parse_scan p start i st)
      else
        (let st1 = (if endPart st = - 1
                    then st\<lparr>matchedSlash := False, endPart := int i + 1\<rparr> else st);
             st2 = (if p ! i = CHAR_DOT then
                      (if startDot st1 = - 1 then st1\<lparr>startDot := int i\<rparr>
                       else if preDotState st1 \<noteq> 1 then st1\<lparr>preDotState := 1\<rparr>
                       else st1)
                    else if startDot st1 \<noteq> - 1 then st1\<lparr>preDotState := - 1\<rparr>
                    else st1)
         in parse_scan p start i st2))"

definition path_parse :: "jsstring \<Rightarrow> ParsedPath" where
  "path_parse p =
     (if p = [] then
        \<lparr>parsed_root = [], parsed_dir = [], parsed_base = [], parsed_ext = [], parsed_name = []\<rparr>
      else
        (let isAbsolute = (hd p = CHAR_FORWARD_SLASH);
             rt = (if isAbsolute then [CHAR_FORWARD_SLASH] else []);
             start = (if isAbsolute then 1 else 0);
             st = parse_scan p start (length p)
                    \<lparr>startDot = - 1, startPart = 0, endPart = - 1,
                     matchedSlash = True, preDotState = 0\<rparr>;
             start2 = (if startPart st = 0 \<and> isAbsolute then 1 else startPart st);
             d = (if startPart st > 0 then js_slice p 0 (startPart st - 1)
                  else if isAbsolute then [CHAR_FORWARD_SLASH] else [])
         in if endPart st \<noteq> - 1 then
              (if startDot st = - 1 \<or> preDotState st = 0 \<or>
                  (preDotState st = 1 \<and> startDot st = endPart st - 1 \<and>
                   startDot st = startPart st + 1)
               then \<lparr>parsed_root = rt, parsed_dir = d,
                     parsed_base = js_slice p start2 (endPart st), parsed_ext = [],
                     parsed_name = js_slice p start2 (endPart st)\<rparr>
               else \<lparr>parsed_root = rt, parsed_dir = d,
                     parsed_base = js_slice p start2 (endPart st),
                     parsed_ext = js_slice p (startDot st) (endPart st),
                     parsed_name = js_slice p start2 (startDot st)\<rparr>)
            else \<lparr>parsed_root = rt, parsed_dir = d, parsed_base = [], parsed_ext = [],
                  parsed_name = []\<rparr>))"

section \<open>path-utils\<close>

definition DEFAULT_SKIP_DIRS :: "jsstring list" where
  "DEFAULT_SKIP_DIRS =
     map js [''components'', ''[id]'', ''queries'', ''mutations'', ''fragments'',
             ''subscriptions'', ''graphql'', ''gql'', ''src'']"

record PathInfo =
  dirName :: jsstring
  fileName :: jsstring

record PathOptions =
  skipDirs :: "jsstring list option"

text \<open>The separator \<open>path.sep\<close> is the slash; the name is split at the dot (46).\<close>

definition extractPathInfo :: "jsstring \<Rightarrow> PathOptions \<Rightarrow> PathInfo" where
  "extractPathInfo physicalFilename options =
     (let skip = (case skipDirs options of Some ds \<Rightarrow> ds | None \<Rightarrow> DEFAULT_SKIP_DIRS);
          parsed = path_parse physicalFilename;
          dirs = js_split 47 (parsed_dir parsed);
          d0 = last dirs;
          d1 = (if d0 \<in> set skip \<and> length dirs > 1 then dirs ! (length dirs - 2) else d0)
      in \<lparr>dirName = removeBrackets d1,
          fileName = removeBrackets (hd (js_split 46 (parsed_name parsed)))\<rparr>)"

text \<open>
  The third step of \<open>toPascalCase\<close>, \<open>replace(/(?:^|\s)(\w)/g, ...)\<close>: at the start of
  the string a word character is replaced by its upper case; anywhere, a white-space
  character followed by a word character is replaced by the upper case of the word
  character alone. Matches are found from left to right and do not overlap.
\<close>

fun capitalizeAfterSpace :: "host \<Rightarrow> jsstring \<Rightarrow> jsstring" where
  "capitalizeAfterSpace H (c # d # cs) =
     (if is_space_char c \<and> is_word_char d then toUpperCase H [d] @ capitalizeAfterSpace H cs
      else c # capitalizeAfterSpace H (d # cs))"
| "capitalizeAfterSpace H cs = cs"

definition capitalizeWords :: "host \<Rightarrow> jsstring \<Rightarrow> jsstring" where
  "capitalizeWords H s =
     (case s of
        [] \<Rightarrow> []
      | c # cs \<Rightarrow> if is_word_char c then toUpperCase H [c] @ capitalizeAfterSpace H cs
                 else capitalizeAfterSpace H s)"

text \<open>The last step, \<open>replace(/^./, c => c.toUpperCase())\<close>.\<close>

definition capitalizeFirst :: "host \<Rightarrow> jsstring \<Rightarrow> jsstring" where
  "capitalizeFirst H s =
     (case s of
        [] \<Rightarrow> []
      | c # cs \<Rightarrow> if is_line_terminator c then s else toUpperCase H [c] @ cs)"

text \<open>Hyphen (45) and underscore (95) become a space (32).\<close>

definition toPascalCase :: "host \<Rightarrow> jsstring \<Rightarrow> jsstring" where
  "toPascalCase H str =
     capitalizeFirst H
       (filter (\<lambda>c. \<not> is_space_char c)
         (capitalizeWords H
           (map (\<lambda>c. if c = 45 \<or> c = 95 then 32 else c)
             (removeBrackets str))))"

definition calculatePrefix :: "host \<Rightarrow> jsstring \<Rightarrow> PathOptions \<Rightarrow> jsstring" where
  "calculatePrefix H physicalFilename options =
     (let info = extractPathInfo physicalFilename options;
          pascalDir = toPascalCase H (dirName info);
          pascalFile = toPascalCase H (fileName info)
      in if pascalDir = pascalFile then pascalDir else pascalDir @ pascalFile)"

text \<open>
  \<open>stripSuffix\<close>: the first replacement takes the leftmost match of \<open>/(s|es|ies)$/\<close>,
  which is the longest of the three endings that the string has.
\<close>

definition stripSuffix :: "jsstring \<Rightarrow> jsstring" where
  "stripSuffix str =
     stripTrailing (js ''data'')
       (stripTrailing (js ''list'')
         (if suffix (js ''ies'') str then stripTrailing (js ''ies'') str
          else if suffix (js ''es'') str then stripTrailing (js ''es'') str
          else stripTrailing (js ''s'') str))"

definition hasSignificantOverlap :: "host \<Rightarrow> jsstring \<Rightarrow> jsstring \<Rightarrow> bool" where
  "hasSignificantOverlap H typeName fileName0 =
     (let normalizedType = toLowerCase H typeName;
          normalizedFile = toLowerCase H fileName0;
          strippedType = stripSuffix normalizedType;
          strippedFile = stripSuffix normalizedFile
      in js_includes strippedType strippedFile \<or> js_includes strippedFile strippedType \<or>
         strippedType = strippedFile)"

definition calculatePrefixWithTypeName ::
  "host \<Rightarrow> jsstring \<Rightarrow> jsstring \<Rightarrow> PathOptions \<Rightarrow> jsstring" where
  "calculatePrefixWithTypeName H physicalFilename typeName options =
     (let info = extractPathInfo physicalFilename options;
          pascalDir = toPascalCase H (dirName info);
          pascalFile = toPascalCase H (fileName info)
      in if hasSignificantOverlap H typeName (fileName info) then
           (if pascalDir = pascalFile then []
            else if pascalDir \<noteq> [] \<and> toLowerCase H (dirName info) \<notin> set DEFAULT_SKIP_DIRS
            then pascalDir
            else [])
         else if pascalDir = pascalFile then pascalDir
         else if pascalDir = [] \<or> toLowerCase H (dirName info) \<in> set DEFAULT_SKIP_DIRS
         then pascalFile
         else pascalDir @ pascalFile)"

section \<open>naming-utils\<close>

text \<open>
  A type of the schema is an object reached through a reference. It may carry an
  \<open>ofType\<close> reference (a list or non-null wrapper) and may carry a \<open>name\<close>. The objects
  live in a store, so that a chain of \<open>ofType\<close> steps is whatever the store holds: it may
  end, run into itself, or never end.
\<close>

type_synonym ref = nat

record GraphQLType =
  ofType :: "ref option"
  name :: "jsstring option"

type_synonym store = "ref \<Rightarrow> GraphQLType"

text \<open>
  \<open>unwrapType\<close> follows \<open>ofType\<close> while there is one. The loop only reassigns its local
  variable; the store is handed back as it was received. No result (\<open>None\<close>) means that
  the loop does not end.
\<close>

partial_function (option) unwrapType :: "store \<Rightarrow> ref \<Rightarrow> (store \<times> ref) option" where
  "unwrapType h current =
     (case ofType (h current) of
        Some next_ref \<Rightarrow> unwrapType h next_ref
      | None \<Rightarrow> Some (h, current))"

text \<open>The reference reached after \<open>n\<close> steps along \<open>ofType\<close>, if there are that many.\<close>

fun ofType_steps :: "store \<Rightarrow> nat \<Rightarrow> ref \<Rightarrow> ref option" where
  "ofType_steps h 0 r = Some r"
| "ofType_steps h (Suc n) r =
     (case ofType (h r) of None \<Rightarrow> None | Some r' \<Rightarrow> ofType_steps h n r')"

text \<open>The schema, as far as the resolver reads it.\<close>

datatype OperationType = Query | Mutation | Subscription

record GraphQLField =
  field_type :: "ref option"

record GraphQLObjectType =
  getFields :: "jsstring \<rightharpoonup> GraphQLField"

record GraphQLSchema =
  getQueryType :: "GraphQLObjectType option"
  getMutationType :: "GraphQLObjectType option"
  getSubscriptionType :: "GraphQLObjectType option"

text \<open>
  The result is \<open>Some None\<close> for \<open>null\<close>, \<open>Some (Some n)\<close> for the name \<open>n\<close>, and \<open>None\<close>
  when the unwrapping loop does not end.
\<close>

definition getOperationTypeName ::
  "store \<Rightarrow> GraphQLSchema \<Rightarrow> OperationType \<Rightarrow> jsstring \<Rightarrow> jsstring option option" where
  "getOperationTypeName h schema operationType firstFieldName =
     (let rootType = (case operationType of
                        Query \<Rightarrow> getQueryType schema
                      | Mutation \<Rightarrow> getMutationType schema
                      | Subscription \<Rightarrow> getSubscriptionType schema)
      in case rootType of
           None \<Rightarrow> Some None
         | Some rootType' \<Rightarrow>
             (case getFields rootType' firstFieldName of
                None \<Rightarrow> Some None
              | Some field \<Rightarrow>
                  (case field_type field of
                     None \<Rightarrow> Some None
                   | Some t \<Rightarrow>
                       (case unwrapType h t of
                          None \<Rightarrow> None
                        | Some (h', unwrapped) \<Rightarrow> Some (name (h' unwrapped))))))"

definition capitalizeTypeName :: "host \<Rightarrow> jsstring \<Rightarrow> jsstring" where
  "capitalizeTypeName H typeName =
     (case typeName of [] \<Rightarrow> [] | c # cs \<Rightarrow> toUpperCase H [c] @ cs)"

definition isValidName :: "host \<Rightarrow> jsstring \<Rightarrow> jsstring \<Rightarrow> jsstring \<Rightarrow> bool" where
  "isValidName H actualName expectedPrefix typeName =
     (let expectedName = expectedPrefix @ capitalizeTypeName H typeName
      in startsWith actualName expectedName)"

definition generateExpectedName :: "host \<Rightarrow> jsstring \<Rightarrow> jsstring \<Rightarrow> jsstring" where
  "generateExpectedName H pfx typeName = pfx @ capitalizeTypeName H typeName"

section \<open>Notions of the specification\<close>

text \<open>
  A separator is what \<open>toPascalCase\<close> removes or replaces: a bracket, a hyphen, an
  underscore or white space. A string is compact and capitalized when it holds no
  separator and its first code unit is its own upper case; a lowercase word is a
  non-empty string of the letters \<open>a\<close> to \<open>z\<close>.
\<close>

definition is_bracket_or_dash :: "codeunit \<Rightarrow> bool" where
  "is_bracket_or_dash c = (c = 91 \<or> c = 93 \<or> c = 45 \<or> c = 95)"

definition is_separator_char :: "codeunit \<Rightarrow> bool" where
  "is_separator_char c = (is_bracket_or_dash c \<or> is_space_char c)"

definition compactCapitalized :: "host \<Rightarrow> jsstring \<Rightarrow> bool" where
  "compactCapitalized H s =
     (list_all (\<lambda>c. \<not> is_separator_char c) s \<and>
      (case s of [] \<Rightarrow> True | c # cs \<Rightarrow> toUpperCase H [c] = [c]))"

definition lowercaseWord :: "jsstring \<Rightarrow> bool" where
  "lowercaseWord s = (s \<noteq> [] \<and> list_all (\<lambda>c. 97 \<le> c \<and> c \<le> 122) s)"

text \<open>
  What the upper-case mapping of the host is taken to satisfy on single code units that
  are no separators: the result is not empty, holds no separator, and its first code
  unit is its own upper case. The case tables of the Unicode standard map letters to
  upper-case letters, possibly followed by further letters or marks (sharp s to \<open>SS\<close>),
  and leave every other code unit as it is.
\<close>

definition upperCaseRegular :: "host \<Rightarrow> bool" where
  "upperCaseRegular H =
     (\<forall>c. \<not> is_separator_char c \<longrightarrow>
            toUpperCase H [c] \<noteq> [] \<and>
            list_all (\<lambda>d. \<not> is_separator_char d) (toUpperCase H [c]) \<and>
            toUpperCase H [hd (toUpperCase H [c])] = [hd (toUpperCase H [c])])"

text \<open>
  A host for evaluation. Its case mappings are those of the Unicode tables on the code
  units up to U+00FF: \<open>a\<close> to \<open>z\<close> and U+00E0 to U+00FE (but the division sign U+00F7)
  have their capital 32 below, the micro sign U+00B5 has U+039C, sharp s (U+00DF) has
  \<open>SS\<close>, and U+00FF has U+0178; \<open>A\<close> to \<open>Z\<close> and U+00C0 to U+00DE (but the
  multiplication sign U+00D7) have their small letter 32 above. A code unit above U+00FF
  is left as it is, so this host stands for the real one on strings up to U+00FF only.
\<close>

definition latin1_upper :: "codeunit \<Rightarrow> jsstring" where
  "latin1_upper c =
     (if 97 \<le> c \<and> c \<le> 122 then [c - 32]
      else if c = 181 then [924]
      else if c = 223 then [83, 83]
      else if 224 \<le> c \<and> c \<le> 254 \<and> c \<noteq> 247 then [c - 32]
      else if c = 255 then [376]
      else [c])"

definition latin1_lower :: "codeunit \<Rightarrow> codeunit" where
  "latin1_lower c =
     (if 65 \<le> c \<and> c \<le> 90 then c + 32
      else if 192 \<le> c \<and> c \<le> 222 \<and> c \<noteq> 215 then c + 32
      else c)"

definition latin1Host :: host where
  "latin1Host =
     \<lparr>toUpperCase = (\<lambda>s. concat (map latin1_upper s)),
      toLowerCase = (\<lambda>s. map latin1_lower s)\<rparr>"

text \<open>
  A host agrees with the host for evaluation on Latin-1 strings when both case mappings
  give the same result on every string of code units up to U+00FF. The real host does.
\<close>

definition latin1String :: "jsstring \<Rightarrow> bool" where
  "latin1String s = list_all (\<lambda>c. c \<le> 255) s"

definition agreesOnLatin1 :: "host \<Rightarrow> bool" where
  "agreesOnLatin1 H =
     (\<forall>s. latin1String s \<longrightarrow>
            toUpperCase H s = toUpperCase latin1Host s \<and>
            toLowerCase H s = toLowerCase latin1Host s)"

text \<open>
  The effective skip set: the caller's \<open>skipDirs\<close> when given, the default set
  otherwise. The directory segments of a directory portion are the non-empty pieces
  between its slashes.
\<close>

definition effectiveSkipDirs :: "PathOptions \<Rightarrow> jsstring list" where
  "effectiveSkipDirs options =
     (case skipDirs options of Some ds \<Rightarrow> ds | None \<Rightarrow> DEFAULT_SKIP_DIRS)"

definition directorySegments :: "jsstring \<Rightarrow> jsstring list" where
  "directorySegments d = filter (\<lambda>w. w \<noteq> []) (js_split 47 d)"

definition defaultOptions :: PathOptions where
  "defaultOptions = \<lparr>skipDirs = None\<rparr>"

definition pagesOptions :: PathOptions where
  "pagesOptions = \<lparr>skipDirs = Some [js ''pages'']\<rparr>"

text \<open>
  The root type that the schema holds for an operation kind, and the type reference
  that the schema declares for a field of that root type, if any.
\<close>

definition rootTypeForKind :: "GraphQLSchema \<Rightarrow> OperationType \<Rightarrow> GraphQLObjectType option" where
  "rootTypeForKind schema k =
     (case k of
        Query \<Rightarrow> getQueryType schema
      | Mutation \<Rightarrow> getMutationType schema
      | Subscription \<Rightarrow> getSubscriptionType schema)"

definition declaredFieldType :: "GraphQLSchema \<Rightarrow> OperationType \<Rightarrow> jsstring \<Rightarrow> ref option" where
  "declaredFieldType schema k f =
     (case rootTypeForKind schema k of
        None \<Rightarrow> None
      | Some rootType \<Rightarrow>
          (case getFields rootType f of
             None \<Rightarrow> None
           | Some field \<Rightarrow> field_type field))"

text \<open>
  An example store: a list wrapper (reference 0) around a non-null wrapper (1) around
  the named type \<open>User\<close> (2); a non-null wrapper (3) around the named type \<open>Order\<close> (4);
  and from 5 on objects with neither \<open>ofType\<close> nor \<open>name\<close>. Three schemas over it, each
  with one root only: the query root declares \<open>users\<close> of type 0 and \<open>anything\<close> of
  type 5, the mutation root declares \<open>createOrder\<close> of type 3, the subscription root
  declares \<open>userAdded\<close> of type 1.
\<close>

definition example_store :: store where
  "example_store r =
     (if r = 0 then \<lparr>ofType = Some 1, name = None\<rparr>
      else if r = 1 then \<lparr>ofType = Some 2, name = None\<rparr>
      else if r = 2 then \<lparr>ofType = None, name = Some (js ''User'')\<rparr>
      else if r = 3 then \<lparr>ofType = Some 4, name = None\<rparr>
      else if r = 4 then \<lparr>ofType = None, name = Some (js ''Order'')\<rparr>
      else \<lparr>ofType = None, name = None\<rparr>)"

definition query_schema :: GraphQLSchema where
  "query_schema =
     \<lparr>getQueryType =
        Some \<lparr>getFields = [js ''users'' \<mapsto> \<lparr>field_type = Some 0\<rparr>,
                            js ''anything'' \<mapsto> \<lparr>field_type = Some 5\<rparr>]\<rparr>,
      getMutationType = None,
      getSubscriptionType = None\<rparr>"

definition mutation_schema :: GraphQLSchema where
  "mutation_schema =
     \<lparr>getQueryType = None,
      getMutationType = Some \<lparr>getFields = [js ''createOrder'' \<mapsto> \<lparr>field_type = Some 3\<rparr>]\<rparr>,
      getSubscriptionType = None\<rparr>"

definition subscription_schema :: GraphQLSchema where
  "subscription_schema =
     \<lparr>getQueryType = None,
      getMutationType = None,
      getSubscriptionType = Some \<lparr>getFields = [js ''userAdded'' \<mapsto> \<lparr>field_type = Some 1\<rparr>]\<rparr>\<rparr>"

text \<open>A store in which every object wraps itself.\<close>

definition cyclic_store :: store where
  "cyclic_store r = \<lparr>ofType = Some r, name = None\<rparr>"

section \<open>Facts about the string operations\<close>

lemma js_includes_sublist: "js_includes s t = sublist t s"
  by (induction s) (simp_all add: sublist_Cons_right)

lemma js_includes_iff: "js_includes s t \<longleftrightarrow> (\<exists>p q. s = p @ t @ q)"
  by (simp add: js_includes_sublist sublist_def)

lemma js_includes_Nil: "js_includes s []"
  by (simp add: js_includes_sublist)

lemma startsWith_iff: "startsWith s t \<longleftrightarrow> (\<exists>sfx. s = t @ sfx)"
  by (simp add: startsWith_def prefix_def)

lemma js_split_not_Nil: "js_split sep s \<noteq> []"
  by (induction s) (simp_all split: list.splits)

lemma line_terminator_space: "is_line_terminator c \<Longrightarrow> is_space_char c"
  by (auto simp: is_line_terminator_def is_space_char_def)

lemma space_separator: "is_space_char c \<Longrightarrow> is_separator_char c"
  by (simp add: is_separator_char_def)

lemma lowercase_not_separator: "97 \<le> c \<Longrightarrow> c \<le> 122 \<Longrightarrow> \<not> is_separator_char c"
  unfolding is_separator_char_def is_bracket_or_dash_def is_space_char_def
  by unat_arith

lemma lowercase_word_char: "97 \<le> c \<Longrightarrow> c \<le> 122 \<Longrightarrow> is_word_char c"
  by (simp add: is_word_char_def)

lemma word_char_not_space: "is_word_char c \<Longrightarrow> \<not> is_space_char c"
  unfolding is_word_char_def is_space_char_def
  by unat_arith

lemma word_char_not_separator:
  "is_word_char c \<Longrightarrow> \<not> is_bracket_or_dash c \<Longrightarrow> \<not> is_separator_char c"
  by (simp add: is_separator_char_def word_char_not_space)

section \<open>toPascalCase\<close>

lemma capitalizeAfterSpace_no_space:
  "list_all (\<lambda>c. \<not> is_space_char c) s \<Longrightarrow> capitalizeAfterSpace H s = s"
  by (induction H s rule: capitalizeAfterSpace.induct) simp_all

lemma capitalizeAfterSpace_all:
  "list_all Q s \<Longrightarrow> (\<And>d. Q d \<Longrightarrow> is_word_char d \<Longrightarrow> list_all Q (toUpperCase H [d])) \<Longrightarrow>
   list_all Q (capitalizeAfterSpace H s)"
  by (induction H s rule: capitalizeAfterSpace.induct) simp_all

lemma capitalizeWords_all:
  "list_all Q s \<Longrightarrow> (\<And>d. Q d \<Longrightarrow> is_word_char d \<Longrightarrow> list_all Q (toUpperCase H [d])) \<Longrightarrow>
   list_all Q (capitalizeWords H s)"
  by (cases s) (simp_all add: capitalizeWords_def capitalizeAfterSpace_all)

lemma no_bracket_or_dash_prepared:
  "list_all (\<lambda>c. \<not> is_bracket_or_dash c)
     (map (\<lambda>c. if c = 45 \<or> c = 95 then 32 else c) (removeBrackets s))"
  by (induction s) (simp_all add: removeBrackets_def is_bracket_or_dash_def)

lemma filter_space_compact:
  "list_all (\<lambda>c. \<not> is_bracket_or_dash c) s \<Longrightarrow>
   list_all (\<lambda>c. \<not> is_separator_char c) (filter (\<lambda>c. \<not> is_space_char c) s)"
  by (induction s) (simp_all add: is_separator_char_def)

lemma regular_upper:
  assumes "upperCaseRegular H" and "\<not> is_separator_char c"
  shows "toUpperCase H [c] \<noteq> []"
    and "list_all (\<lambda>d. \<not> is_separator_char d) (toUpperCase H [c])"
    and "toUpperCase H [hd (toUpperCase H [c])] = [hd (toUpperCase H [c])]"
  using assms unfolding upperCaseRegular_def by blast+

text \<open>The first two steps and the fourth do nothing to a string without separators.\<close>

lemma toPascalCase_no_separator:
  assumes "list_all (\<lambda>c. \<not> is_separator_char c) s"
  shows "toPascalCase H s =
           capitalizeFirst H (filter (\<lambda>c. \<not> is_space_char c) (capitalizeWords H s))"
proof -
  have rb: "removeBrackets s = s"
    unfolding removeBrackets_def using assms
    by (intro filter_True) (auto simp: list_all_iff is_separator_char_def is_bracket_or_dash_def)
  have mp: "map (\<lambda>c. if c = 45 \<or> c = 95 then 32 else c) s = s"
    using assms
    by (intro map_idI) (auto simp: list_all_iff is_separator_char_def is_bracket_or_dash_def)
  show ?thesis unfolding toPascalCase_def rb mp ..
qed

lemma no_separator_no_space:
  "list_all (\<lambda>c. \<not> is_separator_char c) s \<Longrightarrow> list_all (\<lambda>c. \<not> is_space_char c) s"
  by (auto simp: list_all_iff dest: space_separator)

lemma toPascalCase_Nil: "toPascalCase H [] = []"
  by (simp add: toPascalCase_def removeBrackets_def capitalizeWords_def capitalizeFirst_def)

text \<open>A compact, capitalized string is left as it is, whatever the case tables are.\<close>

lemma toPascalCase_compactCapitalized:
  assumes "compactCapitalized H s"
  shows "toPascalCase H s = s"
proof (cases s)
  case Nil
  then show ?thesis by (simp add: toPascalCase_Nil)
next
  case (Cons c cs)
  from assms have comp: "list_all (\<lambda>c. \<not> is_separator_char c) (c # cs)"
    and cap: "toUpperCase H [c] = [c]"
    unfolding Cons by (simp_all add: compactCapitalized_def)
  from comp have ns: "list_all (\<lambda>c. \<not> is_space_char c) (c # cs)"
    by (rule no_separator_no_space)
  then have nc: "\<not> is_space_char c" and ncs: "list_all (\<lambda>c. \<not> is_space_char c) cs"
    by simp_all
  have cw: "capitalizeWords H (c # cs) = c # cs"
    using cap ns ncs by (simp add: capitalizeWords_def capitalizeAfterSpace_no_space)
  have fl: "filter (\<lambda>c. \<not> is_space_char c) (c # cs) = c # cs"
    using ns by (intro filter_True) (simp add: list_all_iff)
  have nl: "\<not> is_line_terminator c"
    using nc line_terminator_space by blast
  have "toPascalCase H (c # cs) = capitalizeFirst H (c # cs)"
    unfolding toPascalCase_no_separator [OF comp] cw fl ..
  also have "\<dots> = c # cs"
    using nl cap by (simp add: capitalizeFirst_def)
  finally show ?thesis unfolding Cons .
qed

text \<open>With regular case tables every result of \<open>toPascalCase\<close> is compact and
  capitalized.\<close>

lemma compactCapitalized_toPascalCase:
  assumes reg: "upperCaseRegular H"
  shows "compactCapitalized H (toPascalCase H s)"
proof -
  let ?s2 = "map (\<lambda>c. if c = 45 \<or> c = 95 then 32 else c) (removeBrackets s)"
  let ?s4 = "filter (\<lambda>c. \<not> is_space_char c) (capitalizeWords H ?s2)"
  have up: "list_all (\<lambda>c. \<not> is_bracket_or_dash c) (toUpperCase H [d])"
    if "\<not> is_bracket_or_dash d" "is_word_char d" for d
  proof -
    from that have "\<not> is_separator_char d" by (simp add: word_char_not_separator)
    from regular_upper(2) [OF reg this] show ?thesis
      by (auto simp: list_all_iff is_separator_char_def)
  qed
  have "list_all (\<lambda>c. \<not> is_bracket_or_dash c) (capitalizeWords H ?s2)"
    using no_bracket_or_dash_prepared by (rule capitalizeWords_all) (rule up)
  then have s4: "list_all (\<lambda>c. \<not> is_separator_char c) ?s4"
    by (rule filter_space_compact)
  have tp: "toPascalCase H s = capitalizeFirst H ?s4"
    by (simp add: toPascalCase_def)
  show ?thesis
  proof (cases ?s4)
    case Nil
    then show ?thesis unfolding tp by (simp add: capitalizeFirst_def compactCapitalized_def)
  next
    case (Cons c cs)
    with s4 have c: "\<not> is_separator_char c" and cs: "list_all (\<lambda>c. \<not> is_separator_char c) cs"
      by simp_all
    from c have "\<not> is_line_terminator c"
      using line_terminator_space space_separator by blast
    then have cf: "capitalizeFirst H ?s4 = toUpperCase H [c] @ cs"
      unfolding Cons by (simp add: capitalizeFirst_def)
    from regular_upper [OF reg c] obtain u us where u: "toUpperCase H [c] = u # us"
      and nsep: "list_all (\<lambda>d. \<not> is_separator_char d) (u # us)"
      and ufix: "toUpperCase H [u] = [u]"
      by (cases "toUpperCase H [c]") auto
    show ?thesis
      unfolding tp cf u using nsep cs ufix by (simp add: compactCapitalized_def)
  qed
qed

text \<open>With regular case tables a lowercase word only has its first letter replaced.\<close>

lemma toPascalCase_lowercaseWord:
  assumes reg: "upperCaseRegular H" and lw: "lowercaseWord s"
  shows "toPascalCase H s = toUpperCase H [hd s] @ tl s"
proof -
  from lw obtain c cs where s: "s = c # cs"
    by (cases s) (simp_all add: lowercaseWord_def)
  from lw have low: "\<forall>d\<in>set (c # cs). 97 \<le> d \<and> d \<le> 122"
    unfolding s by (simp add: lowercaseWord_def list_all_iff)
  then have comp: "list_all (\<lambda>c. \<not> is_separator_char c) (c # cs)"
    unfolding list_all_iff using lowercase_not_separator by blast
  then have c: "\<not> is_separator_char c" and ncs: "list_all (\<lambda>c. \<not> is_space_char c) cs"
    using no_separator_no_space [OF comp] by simp_all
  from low have wc: "is_word_char c"
    by (simp add: lowercase_word_char)
  from regular_upper [OF reg c] obtain u us where u: "toUpperCase H [c] = u # us"
    and nsep: "list_all (\<lambda>d. \<not> is_separator_char d) (u # us)"
    and ufix: "toUpperCase H [u] = [u]"
    by (cases "toUpperCase H [c]") auto
  from nsep have nsp: "list_all (\<lambda>d. \<not> is_space_char d) (u # us)"
    by (rule no_separator_no_space)
  have cw: "capitalizeWords H (c # cs) = (u # us) @ cs"
    using wc ncs u by (simp add: capitalizeWords_def capitalizeAfterSpace_no_space)
  have fl: "filter (\<lambda>c. \<not> is_space_char c) ((u # us) @ cs) = (u # us) @ cs"
    using nsp ncs by (intro filter_True) (auto simp: list_all_iff)
  have nl: "\<not> is_line_terminator u"
    using nsp line_terminator_space by auto
  have "toPascalCase H (c # cs) = capitalizeFirst H ((u # us) @ cs)"
    unfolding toPascalCase_no_separator [OF comp] cw fl ..
  also have "\<dots> = (u # us) @ cs"
    using nl ufix by (simp add: capitalizeFirst_def)
  finally show ?thesis unfolding s by (simp add: u)
qed

text \<open>The host for evaluation has regular case tables.\<close>

lemma latin1_toUpperCase: "toUpperCase latin1Host [c] = latin1_upper c"
  by (simp add: latin1Host_def)

lemma latin1_upper_fixed:
  "\<not> (97 \<le> c \<and> c \<le> 122) \<Longrightarrow> c \<noteq> 181 \<Longrightarrow> c \<noteq> 223 \<Longrightarrow>
   \<not> (224 \<le> c \<and> c \<le> 254 \<and> c \<noteq> 247) \<Longrightarrow> c \<noteq> 255 \<Longrightarrow> latin1_upper c = [c]"
  by (simp add: latin1_upper_def)

lemma capital_fixed:
  assumes "65 \<le> d" "d \<le> 90"
  shows "\<not> is_separator_char d \<and> latin1_upper d = [d]"
proof
  show "\<not> is_separator_char d"
    using assms unfolding is_separator_char_def is_bracket_or_dash_def is_space_char_def
    by unat_arith
  have "\<not> (97 \<le> d \<and> d \<le> 122)" "d \<noteq> 181" "d \<noteq> 223"
    "\<not> (224 \<le> d \<and> d \<le> 254 \<and> d \<noteq> 247)" "d \<noteq> 255"
    using assms by unat_arith+
  then show "latin1_upper d = [d]" by (rule latin1_upper_fixed)
qed

lemma latin1_capital_fixed:
  assumes "192 \<le> d" "d \<le> 222"
  shows "\<not> is_separator_char d \<and> latin1_upper d = [d]"
proof
  show "\<not> is_separator_char d"
    using assms unfolding is_separator_char_def is_bracket_or_dash_def is_space_char_def
    by unat_arith
  have "\<not> (97 \<le> d \<and> d \<le> 122)" "d \<noteq> 181" "d \<noteq> 223"
    "\<not> (224 \<le> d \<and> d \<le> 254 \<and> d \<noteq> 247)" "d \<noteq> 255"
    using assms by unat_arith+
  then show "latin1_upper d = [d]" by (rule latin1_upper_fixed)
qed

lemma shift_small: "97 \<le> c \<Longrightarrow> c \<le> 122 \<Longrightarrow> 65 \<le> c - 32 \<and> c - 32 \<le> (90 :: 16 word)"
  by unat_arith

lemma shift_latin1: "224 \<le> c \<Longrightarrow> c \<le> 254 \<Longrightarrow> 192 \<le> c - 32 \<and> c - 32 \<le> (222 :: 16 word)"
  by unat_arith

lemma fixed_values:
  "\<not> is_separator_char 924 \<and> latin1_upper 924 = [924]"
  "\<not> is_separator_char 83 \<and> latin1_upper 83 = [83]"
  "\<not> is_separator_char 376 \<and> latin1_upper 376 = [376]"
  by code_simp+

lemma latin1_upper_cases:
  assumes "\<not> is_separator_char c"
  shows "latin1_upper c \<noteq> [] \<and> list_all (\<lambda>d. \<not> is_separator_char d) (latin1_upper c) \<and>
         latin1_upper (hd (latin1_upper c)) = [hd (latin1_upper c)]"
proof -
  consider (small) "97 \<le> c \<and> c \<le> 122"
    | (micro) "\<not> (97 \<le> c \<and> c \<le> 122)" "c = 181"
    | (sharp) "\<not> (97 \<le> c \<and> c \<le> 122)" "c \<noteq> 181" "c = 223"
    | (latin) "\<not> (97 \<le> c \<and> c \<le> 122)" "c \<noteq> 181" "c \<noteq> 223"
        "224 \<le> c \<and> c \<le> 254 \<and> c \<noteq> 247"
    | (ydia) "\<not> (97 \<le> c \<and> c \<le> 122)" "c \<noteq> 181" "c \<noteq> 223"
        "\<not> (224 \<le> c \<and> c \<le> 254 \<and> c \<noteq> 247)" "c = 255"
    | (other) "\<not> (97 \<le> c \<and> c \<le> 122)" "c \<noteq> 181" "c \<noteq> 223"
        "\<not> (224 \<le> c \<and> c \<le> 254 \<and> c \<noteq> 247)" "c \<noteq> 255"
    by blast
  then show ?thesis
  proof cases
    case small
    then have u: "latin1_upper c = [c - 32]" by (simp add: latin1_upper_def)
    from small shift_small have "65 \<le> c - 32" "c - 32 \<le> 90" by blast+
    from capital_fixed [OF this] show ?thesis unfolding u by simp
  next
    case micro
    then have u: "latin1_upper c = [924]" by (simp add: latin1_upper_def)
    show ?thesis unfolding u using fixed_values(1) by simp
  next
    case sharp
    then have u: "latin1_upper c = [83, 83]" by (simp add: latin1_upper_def)
    show ?thesis unfolding u using fixed_values(2) by simp
  next
    case latin
    then have u: "latin1_upper c = [c - 32]" by (simp add: latin1_upper_def)
    from latin shift_latin1 have "192 \<le> c - 32" "c - 32 \<le> 222" by blast+
    from latin1_capital_fixed [OF this] show ?thesis unfolding u by simp
  next
    case ydia
    then have u: "latin1_upper c = [376]" by (simp add: latin1_upper_def)
    show ?thesis unfolding u using fixed_values(3) by simp
  next
    case other
    then have u: "latin1_upper c = [c]" by (rule latin1_upper_fixed)
    show ?thesis unfolding u using assms u by simp
  qed
qed

lemma upperCaseRegular_latin1Host: "upperCaseRegular latin1Host"
  unfolding upperCaseRegular_def latin1_toUpperCase using latin1_upper_cases by blast

text \<open>
  Claim C6. For every host whose upper-case mapping is regular, and every string:
  \<open>toPascalCase\<close> is idempotent, that is, applying it to its own result changes nothing,
  and on a lowercase word it only replaces the first letter by its upper case. For every
  host whatever, it leaves a compact, capitalized string as it is.
\<close>

theorem toPascalCase_idempotent:
  "(upperCaseRegular H \<longrightarrow> toPascalCase H (toPascalCase H s) = toPascalCase H s) \<and>
   (compactCapitalized H s \<longrightarrow> toPascalCase H s = s) \<and>
   (upperCaseRegular H \<and> lowercaseWord s \<longrightarrow> toPascalCase H s = toUpperCase H [hd s] @ tl s)"
proof (intro conjI impI)
  show "toPascalCase H (toPascalCase H s) = toPascalCase H s" if "upperCaseRegular H"
    using that by (intro toPascalCase_compactCapitalized compactCapitalized_toPascalCase)
  show "toPascalCase H s = s" if "compactCapitalized H s"
    using that by (rule toPascalCase_compactCapitalized)
  show "toPascalCase H s = toUpperCase H [hd s] @ tl s" if "upperCaseRegular H \<and> lowercaseWord s"
    using that by (intro toPascalCase_lowercaseWord) simp_all
qed

text \<open>
  Instances on the host for evaluation: a string with separators; \<open>cole\<close> after the
  code unit U+00E9 (e with acute accent, whose upper case is U+00C9); \<open>a\<close> after the
  code unit U+00DF (sharp s, whose upper case is the two code units \<open>SS\<close>); \<open>a\<close> and
  \<open>b\<close> around a no-break space (U+00A0); a compact capitalized string; a lowercase word.
\<close>

theorem toPascalCase_idempotent_witness:
  "upperCaseRegular latin1Host \<and>
   toPascalCase latin1Host (js ''user-Profile_card'') = js ''UserProfileCard'' \<and>
   toPascalCase latin1Host (js ''UserProfileCard'') = js ''UserProfileCard'' \<and>
   toPascalCase latin1Host (233 # js ''cole'') = 201 # js ''cole'' \<and>
   toPascalCase latin1Host (201 # js ''cole'') = 201 # js ''cole'' \<and>
   toPascalCase latin1Host (223 # js ''a'') = js ''SSa'' \<and>
   toPascalCase latin1Host (js ''SSa'') = js ''SSa'' \<and>
   toPascalCase latin1Host (js ''a'' @ 160 # js ''b'') = js ''AB'' \<and>
   toPascalCase latin1Host (js ''AB'') = js ''AB'' \<and>
   compactCapitalized latin1Host (js ''UserCard'') \<and>
   toPascalCase latin1Host (js ''UserCard'') = js ''UserCard'' \<and>
   lowercaseWord (js ''users'') \<and> toPascalCase latin1Host (js ''users'') = js ''Users''"
proof -
  note reg = upperCaseRegular_latin1Host
  have idem: "toPascalCase latin1Host (toPascalCase latin1Host s) = toPascalCase latin1Host s"
    for s
    using toPascalCase_idempotent [of latin1Host s] reg by blast
  have a: "toPascalCase latin1Host (js ''user-Profile_card'') = js ''UserProfileCard''"
    by code_simp
  have b: "toPascalCase latin1Host (233 # js ''cole'') = 201 # js ''cole''"
    by code_simp
  have c: "toPascalCase latin1Host (223 # js ''a'') = js ''SSa''"
    by code_simp
  have d: "toPascalCase latin1Host (js ''a'' @ 160 # js ''b'') = js ''AB''"
    by code_simp
  have a': "toPascalCase latin1Host (js ''UserProfileCard'') = js ''UserProfileCard''"
    using idem [of "js ''user-Profile_card''"] unfolding a .
  have b': "toPascalCase latin1Host (201 # js ''cole'') = 201 # js ''cole''"
    using idem [of "233 # js ''cole''"] unfolding b .
  have c': "toPascalCase latin1Host (js ''SSa'') = js ''SSa''"
    using idem [of "223 # js ''a''"] unfolding c .
  have d': "toPascalCase latin1Host (js ''AB'') = js ''AB''"
    using idem [of "js ''a'' @ 160 # js ''b''"] unfolding d .
  have e: "compactCapitalized latin1Host (js ''UserCard'')"
    by code_simp
  have e': "toPascalCase latin1Host (js ''UserCard'') = js ''UserCard''"
    using toPascalCase_idempotent [of latin1Host "js ''UserCard''"] e by blast
  have f: "lowercaseWord (js ''users'')"
    by code_simp
  have "toPascalCase latin1Host (js ''users'') =
          toUpperCase latin1Host [hd (js ''users'')] @ tl (js ''users'')"
    using toPascalCase_idempotent [of latin1Host "js ''users''"] reg f by blast
  also have "\<dots> = js ''Users''"
    by code_simp
  finally have f': "toPascalCase latin1Host (js ''users'') = js ''Users''" .
  from reg a a' b b' c c' d d' e e' f f' show ?thesis by blast
qed

section \<open>Hosts that agree with the host for evaluation\<close>

text \<open>
  What is evaluated on the host for evaluation holds for every host that agrees with it
  on Latin-1 strings, as long as the strings involved are Latin-1 strings.
\<close>

lemma agrees_upper:
  "agreesOnLatin1 H \<Longrightarrow> c \<le> 255 \<Longrightarrow> toUpperCase H [c] = toUpperCase latin1Host [c]"
  by (simp add: agreesOnLatin1_def latin1String_def)

lemma agrees_lower:
  "agreesOnLatin1 H \<Longrightarrow> latin1String s \<Longrightarrow> toLowerCase H s = toLowerCase latin1Host s"
  by (simp add: agreesOnLatin1_def)

lemma capitalizeAfterSpace_agrees:
  "agreesOnLatin1 H \<Longrightarrow> latin1String s \<Longrightarrow>
   capitalizeAfterSpace H s = capitalizeAfterSpace latin1Host s"
proof (induction s rule: length_induct)
  case (1 s)
  show ?case
  proof (cases s)
    case Nil
    then show ?thesis by simp
  next
    case c: (Cons c s')
    show ?thesis
    proof (cases s')
      case Nil
      with c show ?thesis by simp
    next
      case (Cons d cs)
      from "1.prems"(2) have l: "d \<le> 255" "latin1String cs" "latin1String (d # cs)"
        unfolding c Cons by (simp_all add: latin1String_def)
      have a: "capitalizeAfterSpace H cs = capitalizeAfterSpace latin1Host cs"
        using "1.IH" "1.prems"(1) l(2) unfolding c Cons by simp
      have b: "capitalizeAfterSpace H (d # cs) = capitalizeAfterSpace latin1Host (d # cs)"
        using "1.IH" "1.prems"(1) l(3) unfolding c Cons by simp
      show ?thesis
        unfolding c Cons using a b agrees_upper [OF "1.prems"(1) l(1)] by simp
    qed
  qed
qed

lemma capitalizeWords_agrees:
  assumes "agreesOnLatin1 H" and "latin1String s"
  shows "capitalizeWords H s = capitalizeWords latin1Host s"
proof (cases s)
  case Nil
  then show ?thesis by (simp add: capitalizeWords_def)
next
  case (Cons c cs)
  with assms(2) have l: "c \<le> 255" "latin1String cs"
    by (simp_all add: latin1String_def)
  show ?thesis
    unfolding Cons capitalizeWords_def
    using agrees_upper [OF assms(1) l(1)] capitalizeAfterSpace_agrees [OF assms(1)]
      l(2) assms(2) Cons
    by simp
qed

lemma latin1_upper_word_char:
  assumes "is_word_char d"
  shows "list_all (\<lambda>c. c \<le> 255) (latin1_upper d)"
proof (cases "97 \<le> d \<and> d \<le> 122")
  case True
  then have "latin1_upper d = [d - 32]" by (simp add: latin1_upper_def)
  moreover from True have "d - 32 \<le> 255" by unat_arith
  ultimately show ?thesis by simp
next
  case False
  moreover from assms False have "d \<noteq> 181" "d \<noteq> 223"
    "\<not> (224 \<le> d \<and> d \<le> 254 \<and> d \<noteq> 247)" "d \<noteq> 255" "d \<le> 255"
    unfolding is_word_char_def by unat_arith+
  ultimately show ?thesis by (simp add: latin1_upper_fixed)
qed

lemma toPascalCase_agrees:
  assumes ag: "agreesOnLatin1 H" and l: "latin1String s"
  shows "toPascalCase H s = toPascalCase latin1Host s"
proof -
  let ?s2 = "map (\<lambda>c. if c = 45 \<or> c = 95 then 32 else c) (removeBrackets s)"
  have l2: "latin1String ?s2"
    using l by (auto simp: latin1String_def list_all_iff removeBrackets_def)
  have cw: "capitalizeWords H ?s2 = capitalizeWords latin1Host ?s2"
    using ag l2 by (rule capitalizeWords_agrees)
  have "list_all (\<lambda>c. c \<le> 255) (capitalizeWords latin1Host ?s2)"
    using l2 unfolding latin1String_def
    by (rule capitalizeWords_all) (simp add: latin1_toUpperCase latin1_upper_word_char)
  then have l4: "list_all (\<lambda>c. c \<le> 255)
                   (filter (\<lambda>c. \<not> is_space_char c) (capitalizeWords latin1Host ?s2))"
    by (simp add: list_all_iff)
  have cf: "capitalizeFirst H t = capitalizeFirst latin1Host t"
    if "list_all (\<lambda>c. c \<le> 255) t" for t
    using that agrees_upper [OF ag] by (cases t) (simp_all add: capitalizeFirst_def)
  show ?thesis
    unfolding toPascalCase_def cw by (rule cf) (rule l4)
qed

lemma hasSignificantOverlap_agrees:
  "agreesOnLatin1 H \<Longrightarrow> latin1String t \<Longrightarrow> latin1String f \<Longrightarrow>
   hasSignificantOverlap H t f = hasSignificantOverlap latin1Host t f"
  by (simp add: hasSignificantOverlap_def agrees_lower)

lemma calculatePrefixWithTypeName_agrees:
  assumes "agreesOnLatin1 H" and "latin1String typeName"
    and "latin1String (dirName (extractPathInfo p opts))"
    and "latin1String (fileName (extractPathInfo p opts))"
  shows "calculatePrefixWithTypeName H p typeName opts =
         calculatePrefixWithTypeName latin1Host p typeName opts"
  unfolding calculatePrefixWithTypeName_def Let_def
  by (simp only: toPascalCase_agrees [OF assms(1,3)] toPascalCase_agrees [OF assms(1,4)]
      hasSignificantOverlap_agrees [OF assms(1,2,4)] agrees_lower [OF assms(1,3)])

lemma calculatePrefix_agrees:
  assumes "agreesOnLatin1 H"
    and "latin1String (dirName (extractPathInfo p opts))"
    and "latin1String (fileName (extractPathInfo p opts))"
  shows "calculatePrefix H p opts = calculatePrefix latin1Host p opts"
  unfolding calculatePrefix_def Let_def
  by (simp only: toPascalCase_agrees [OF assms(1,2)] toPascalCase_agrees [OF assms(1,3)])

section \<open>extractPathInfo and calculatePrefix\<close>

text \<open>
  Claim C4, as the code has it. The pieces of the directory portion are what lies
  between its slashes; there is always at least one, and an absolute path has an empty
  piece before its first slash. When the last piece is a literal member of the
  effective skip set and there is more than one piece, the directory name is the piece
  just before it, whether or not that piece is in the skip set too. With a single piece,
  or a last piece outside the effective skip set, the directory name is the last piece.
  In each case the brackets are removed from the piece chosen.
\<close>

theorem extractPathInfo_skip_once:
  "js_split 47 (parsed_dir (path_parse p)) \<noteq> [] \<and>
   (last (js_split 47 (parsed_dir (path_parse p))) \<in> set (effectiveSkipDirs opts) \<and>
    1 < length (js_split 47 (parsed_dir (path_parse p)))
      \<longrightarrow> dirName (extractPathInfo p opts) =
            removeBrackets (js_split 47 (parsed_dir (path_parse p)) !
                             (length (js_split 47 (parsed_dir (path_parse p))) - 2))) \<and>
   (length (js_split 47 (parsed_dir (path_parse p))) = 1
      \<longrightarrow> dirName (extractPathInfo p opts) =
            removeBrackets (last (js_split 47 (parsed_dir (path_parse p))))) \<and>
   (last (js_split 47 (parsed_dir (path_parse p))) \<notin> set (effectiveSkipDirs opts)
      \<longrightarrow> dirName (extractPathInfo p opts) =
            removeBrackets (last (js_split 47 (parsed_dir (path_parse p)))))"
  by (simp add: extractPathInfo_def effectiveSkipDirs_def Let_def js_split_not_Nil
      split: option.splits)

text \<open>
  Four instances. With the default skip set, under \<open>orders/[id]/components\<close> the
  skipped \<open>components\<close> gives way to \<open>[id]\<close>, which is in the skip set itself and is kept
  all the same; with the single piece \<open>queries\<close> nothing is substituted. With the
  caller's skip set \<open>pages\<close>, \<open>pages\<close> gives way to \<open>users\<close>, and \<open>components\<close>, which
  is in the default set only, stays.
\<close>

theorem extractPathInfo_skip_once_witness:
  "js ''components'' \<in> set (effectiveSkipDirs defaultOptions) \<and>
   js ''[id]'' \<in> set (effectiveSkipDirs defaultOptions) \<and>
   dirName (extractPathInfo (js ''/features/orders/[id]/components/OrderForm.vue'')
     defaultOptions) = js ''id'' \<and>
   js_split 47 (parsed_dir (path_parse (js ''queries/Users.gql''))) = [js ''queries''] \<and>
   dirName (extractPathInfo (js ''queries/Users.gql'') defaultOptions) = js ''queries'' \<and>
   effectiveSkipDirs pagesOptions = [js ''pages''] \<and>
   dirName (extractPathInfo (js ''/path/to/features/users/pages/UserPage.vue'') pagesOptions)
     = js ''users'' \<and>
   dirName (extractPathInfo (js ''/features/users/components/UserCard.vue'') pagesOptions)
     = js ''components''"
proof -
  let ?p = "js ''/features/orders/[id]/components/OrderForm.vue''"
  let ?q = "js ''queries/Users.gql''"
  let ?r = "js ''/path/to/features/users/pages/UserPage.vue''"
  let ?s = "js ''/features/users/components/UserCard.vue''"
  have dp: "js_split 47 (parsed_dir (path_parse ?p))
              = [[], js ''features'', js ''orders'', js ''[id]'', js ''components'']"
    by code_simp
  have dq: "js_split 47 (parsed_dir (path_parse ?q)) = [js ''queries'']"
    by code_simp
  have dr: "js_split 47 (parsed_dir (path_parse ?r))
              = [[], js ''path'', js ''to'', js ''features'', js ''users'', js ''pages'']"
    by code_simp
  have ds: "js_split 47 (parsed_dir (path_parse ?s))
              = [[], js ''features'', js ''users'', js ''components'']"
    by code_simp
  have m1: "js ''components'' \<in> set (effectiveSkipDirs defaultOptions)"
    by code_simp
  have m2: "js ''[id]'' \<in> set (effectiveSkipDirs defaultOptions)"
    by code_simp
  have m3: "js ''pages'' \<in> set (effectiveSkipDirs pagesOptions)"
    by code_simp
  have m4: "js ''components'' \<notin> set (effectiveSkipDirs pagesOptions)"
    by code_simp
  have e: "effectiveSkipDirs pagesOptions = [js ''pages'']"
    by code_simp
  have rb: "removeBrackets (js ''[id]'') = js ''id''"
    "removeBrackets (js ''queries'') = js ''queries''"
    "removeBrackets (js ''users'') = js ''users''"
    "removeBrackets (js ''components'') = js ''components''"
    by code_simp+
  have "dirName (extractPathInfo ?p defaultOptions) = removeBrackets (js ''[id]'')"
    using extractPathInfo_skip_once [of ?p defaultOptions] m1 unfolding dp by simp
  then have a: "dirName (extractPathInfo ?p defaultOptions) = js ''id''"
    unfolding rb .
  have "dirName (extractPathInfo ?q defaultOptions) = removeBrackets (js ''queries'')"
    using extractPathInfo_skip_once [of ?q defaultOptions] unfolding dq by simp
  then have b: "dirName (extractPathInfo ?q defaultOptions) = js ''queries''"
    unfolding rb .
  have "dirName (extractPathInfo ?r pagesOptions) = removeBrackets (js ''users'')"
    using extractPathInfo_skip_once [of ?r pagesOptions] m3 unfolding dr by simp
  then have c: "dirName (extractPathInfo ?r pagesOptions) = js ''users''"
    unfolding rb .
  have "dirName (extractPathInfo ?s pagesOptions) = removeBrackets (js ''components'')"
    using extractPathInfo_skip_once [of ?s pagesOptions] m4 unfolding ds by simp
  then have d: "dirName (extractPathInfo ?s pagesOptions) = js ''components''"
    unfolding rb .
  from m1 m2 a dq b e c d show ?thesis by blast
qed

text \<open>
  The directory portion of \<open>/src/App.vue\<close> is \<open>/src\<close>, with the one directory segment
  \<open>src\<close>. The segment is in the default skip set, the empty piece before the slash
  stands in for it, and the directory name is empty, not \<open>src\<close>.
\<close>

theorem extractPathInfo_single_segment_counterexample:
  "parsed_dir (path_parse (js ''/src/App.vue'')) = js ''/src'' \<and>
   directorySegments (js ''/src'') = [js ''src''] \<and>
   js_split 47 (js ''/src'') = [[], js ''src''] \<and>
   dirName (extractPathInfo (js ''/src/App.vue'') defaultOptions) = [] \<and>
   dirName (extractPathInfo (js ''/src/App.vue'') defaultOptions) \<noteq> removeBrackets (js ''src'')"
proof -
  have a: "parsed_dir (path_parse (js ''/src/App.vue'')) = js ''/src''"
    by code_simp
  have b: "directorySegments (js ''/src'') = [js ''src'']"
    by code_simp
  have c: "js_split 47 (js ''/src'') = [[], js ''src'']"
    by code_simp
  have d: "dirName (extractPathInfo (js ''/src/App.vue'') defaultOptions) = []"
    by code_simp
  have e: "dirName (extractPathInfo (js ''/src/App.vue'') defaultOptions)
             \<noteq> removeBrackets (js ''src'')"
    by code_simp
  from a b c d e show ?thesis by blast
qed

text \<open>
  Claim C8. When the two normalized candidates are equal, \<open>calculatePrefix\<close> returns that
  one string; it then differs from the concatenation of the two unless the string is
  empty (the concatenation of two empty strings is the empty string again). When they
  differ it returns the directory part followed by the file part. This holds for every
  host.
\<close>

theorem calculatePrefix_no_duplication:
  "(toPascalCase H (dirName (extractPathInfo p opts)) =
    toPascalCase H (fileName (extractPathInfo p opts))
      \<longrightarrow> calculatePrefix H p opts = toPascalCase H (dirName (extractPathInfo p opts)) \<and>
          (toPascalCase H (dirName (extractPathInfo p opts)) \<noteq> [] \<longrightarrow>
             calculatePrefix H p opts \<noteq>
               toPascalCase H (dirName (extractPathInfo p opts)) @
               toPascalCase H (fileName (extractPathInfo p opts)))) \<and>
   (toPascalCase H (dirName (extractPathInfo p opts)) \<noteq>
    toPascalCase H (fileName (extractPathInfo p opts))
      \<longrightarrow> calculatePrefix H p opts =
            toPascalCase H (dirName (extractPathInfo p opts)) @
            toPascalCase H (fileName (extractPathInfo p opts)))"
  by (simp add: calculatePrefix_def Let_def)

theorem calculatePrefix_no_duplication_witness:
  "toPascalCase latin1Host (dirName (extractPathInfo (js ''features/users/Users.vue'')
     defaultOptions)) = js ''Users'' \<and>
   toPascalCase latin1Host (fileName (extractPathInfo (js ''features/users/Users.vue'')
     defaultOptions)) = js ''Users'' \<and>
   calculatePrefix latin1Host (js ''features/users/Users.vue'') defaultOptions = js ''Users'' \<and>
   calculatePrefix latin1Host (js ''features/users/Users.vue'') defaultOptions
     \<noteq> js ''UsersUsers'' \<and>
   toPascalCase latin1Host (dirName (extractPathInfo
     (js ''features/users/components/UserCard.vue'') defaultOptions)) = js ''Users'' \<and>
   toPascalCase latin1Host (fileName (extractPathInfo
     (js ''features/users/components/UserCard.vue'') defaultOptions)) = js ''UserCard'' \<and>
   calculatePrefix latin1Host (js ''features/users/components/UserCard.vue'') defaultOptions
     = js ''UsersUserCard''"
proof -
  let ?p = "js ''features/users/Users.vue''"
  let ?q = "js ''features/users/components/UserCard.vue''"
  have d1: "toPascalCase latin1Host (dirName (extractPathInfo ?p defaultOptions)) = js ''Users''"
    by code_simp
  have f1: "toPascalCase latin1Host (fileName (extractPathInfo ?p defaultOptions)) = js ''Users''"
    by code_simp
  have d2: "toPascalCase latin1Host (dirName (extractPathInfo ?q defaultOptions)) = js ''Users''"
    by code_simp
  have f2: "toPascalCase latin1Host (fileName (extractPathInfo ?q defaultOptions))
              = js ''UserCard''"
    by code_simp
  have g: "js ''Users'' \<noteq> []" "js ''Users'' @ js ''Users'' = js ''UsersUsers''"
    "js ''Users'' \<noteq> js ''UserCard''" "js ''Users'' @ js ''UserCard'' = js ''UsersUserCard''"
    by code_simp+
  have a: "calculatePrefix latin1Host ?p defaultOptions = js ''Users''"
    using calculatePrefix_no_duplication [of latin1Host ?p defaultOptions] unfolding d1 f1
    by blast
  have "calculatePrefix latin1Host ?p defaultOptions \<noteq> js ''Users'' @ js ''Users''"
    using calculatePrefix_no_duplication [of latin1Host ?p defaultOptions] g(1)
    unfolding d1 f1 by blast
  then have b: "calculatePrefix latin1Host ?p defaultOptions \<noteq> js ''UsersUsers''"
    unfolding g(2) .
  have "calculatePrefix latin1Host ?q defaultOptions = js ''Users'' @ js ''UserCard''"
    using calculatePrefix_no_duplication [of latin1Host ?q defaultOptions] g(3)
    unfolding d2 f2 by blast
  then have c: "calculatePrefix latin1Host ?q defaultOptions = js ''UsersUserCard''"
    unfolding g(4) .
  from d1 f1 d2 f2 a b c show ?thesis by blast
qed

section \<open>hasSignificantOverlap\<close>

text \<open>
  Claim C7. \<open>hasSignificantOverlap\<close> gives the same answer for \<open>(a, b)\<close> and \<open>(b, a)\<close>:
  it holds exactly when, after case folding and suffix stripping, one of the two strings
  occurs inside the other (which is also the case when they are equal). This holds for
  every host.
\<close>

theorem hasSignificantOverlap_commute:
  "hasSignificantOverlap H a b = hasSignificantOverlap H b a \<and>
   (hasSignificantOverlap H a b \<longleftrightarrow>
      (\<exists>p q. stripSuffix (toLowerCase H a) = p @ stripSuffix (toLowerCase H b) @ q) \<or>
      (\<exists>p q. stripSuffix (toLowerCase H b) = p @ stripSuffix (toLowerCase H a) @ q))"
proof -
  have eq: "s = t \<Longrightarrow> \<exists>p q. s = p @ t @ q" for s t :: jsstring
    by (intro exI [of _ "[]"]) simp
  show ?thesis
    unfolding hasSignificantOverlap_def Let_def js_includes_iff
    using eq by blast
qed

text \<open>
  Claim C10. For every host: when the stripped, case-folded form of either argument is
  empty, \<open>hasSignificantOverlap\<close> is true whatever the other argument is. This is so for
  the file names \<open>''\<close>, \<open>s\<close>, \<open>list\<close> and \<open>data\<close>, which are in lower case already, so
  that case folding leaves them as they are.
\<close>

theorem hasSignificantOverlap_empty_stripped:
  "(stripSuffix (toLowerCase H typeName) = [] \<or> stripSuffix (toLowerCase H fileName0) = []
      \<longrightarrow> hasSignificantOverlap H typeName fileName0) \<and>
   (toLowerCase H [] = [] \<longrightarrow> hasSignificantOverlap H typeName []) \<and>
   (toLowerCase H (js ''s'') = js ''s'' \<longrightarrow> hasSignificantOverlap H typeName (js ''s'')) \<and>
   (toLowerCase H (js ''list'') = js ''list''
      \<longrightarrow> hasSignificantOverlap H typeName (js ''list'')) \<and>
   (toLowerCase H (js ''data'') = js ''data''
      \<longrightarrow> hasSignificantOverlap H typeName (js ''data''))"
proof -
  have gen: "hasSignificantOverlap H t f"
    if "stripSuffix (toLowerCase H t) = [] \<or> stripSuffix (toLowerCase H f) = []" for t f
    using that by (auto simp: hasSignificantOverlap_def Let_def js_includes_Nil)
  have e: "stripSuffix [] = []" "stripSuffix (js ''s'') = []"
    "stripSuffix (js ''list'') = []" "stripSuffix (js ''data'') = []"
    by code_simp+
  have "hasSignificantOverlap H typeName f"
    if "toLowerCase H f = f" "stripSuffix f = []" for f
    using that gen [of typeName f] by simp
  with gen e show ?thesis by blast
qed

theorem hasSignificantOverlap_empty_stripped_witness:
  "stripSuffix (toLowerCase latin1Host (js ''DataLists'')) = [] \<and>
   hasSignificantOverlap latin1Host (js ''OrderCard'') (js ''DataLists'') \<and>
   toLowerCase latin1Host (js ''data'') = js ''data'' \<and>
   hasSignificantOverlap latin1Host (js ''OrderCard'') (js ''data'') \<and>
   toLowerCase latin1Host (js ''s'') = js ''s'' \<and>
   hasSignificantOverlap latin1Host (js ''OrderCard'') (js ''s'')"
proof -
  have e: "stripSuffix (toLowerCase latin1Host (js ''DataLists'')) = []"
    by code_simp
  have d: "toLowerCase latin1Host (js ''data'') = js ''data''"
    by code_simp
  have s: "toLowerCase latin1Host (js ''s'') = js ''s''"
    by code_simp
  from hasSignificantOverlap_empty_stripped [of latin1Host "js ''OrderCard''" "js ''DataLists''"]
    e d s
  show ?thesis by blast
qed

section \<open>Names\<close>

text \<open>
  Claim C2. For every host: \<open>isValidName\<close> holds exactly when the actual name is the
  expected name followed by some suffix, possibly empty. The expected name is the prefix
  followed by the type name with its first code unit replaced by its upper case. So an
  expected name with any suffix appended is valid, and a name that does not begin with
  the expected name is not.
\<close>

theorem isValidName_prefix_match:
  "(isValidName H actualName pfx typeName \<longleftrightarrow>
      (\<exists>sfx. actualName = generateExpectedName H pfx typeName @ sfx)) \<and>
   generateExpectedName H pfx typeName =
      pfx @ (case typeName of [] \<Rightarrow> [] | c # cs \<Rightarrow> toUpperCase H [c] @ cs) \<and>
   isValidName H (generateExpectedName H pfx typeName @ sfx') pfx typeName \<and>
   (\<not> prefix (generateExpectedName H pfx typeName) x \<longrightarrow> \<not> isValidName H x pfx typeName)"
  by (simp add: isValidName_def generateExpectedName_def capitalizeTypeName_def
      startsWith_def prefix_def)

theorem isValidName_prefix_match_witness:
  "isValidName latin1Host (js ''UsersUserCardUserDetail'') (js ''UsersUserCard'') (js ''user'') \<and>
   generateExpectedName latin1Host (js ''UsersUserCard'') (js ''user'')
     = js ''UsersUserCardUser'' \<and>
   \<not> prefix (generateExpectedName latin1Host (js ''UsersUserCard'') (js ''user''))
       (js ''CreateUser'') \<and>
   \<not> isValidName latin1Host (js ''CreateUser'') (js ''UsersUserCard'') (js ''user'')"
proof -
  have g: "generateExpectedName latin1Host (js ''UsersUserCard'') (js ''user'')
             = js ''UsersUserCardUser''"
    by code_simp
  have n: "\<not> prefix (generateExpectedName latin1Host (js ''UsersUserCard'') (js ''user''))
              (js ''CreateUser'')"
    by code_simp
  have j: "js ''UsersUserCardUser'' @ js ''Detail'' = js ''UsersUserCardUserDetail''"
    by code_simp
  note t = isValidName_prefix_match
    [of latin1Host _ "js ''UsersUserCard''" "js ''user''" "js ''Detail''" "js ''CreateUser''"]
  from t have a:
    "isValidName latin1Host
       (generateExpectedName latin1Host (js ''UsersUserCard'') (js ''user'') @ js ''Detail'')
       (js ''UsersUserCard'') (js ''user'')"
    by blast
  from t n have b:
    "\<not> isValidName latin1Host (js ''CreateUser'') (js ''UsersUserCard'') (js ''user'')"
    by blast
  from a have a':
    "isValidName latin1Host (js ''UsersUserCardUserDetail'') (js ''UsersUserCard'') (js ''user'')"
    unfolding g j .
  from a' g n b show ?thesis by blast
qed

section \<open>Type resolution\<close>

lemma unwrapType_steps:
  "ofType_steps h n r = Some t \<Longrightarrow> ofType (h t) = None \<Longrightarrow> unwrapType h r = Some (h, t)"
proof (induction n arbitrary: r)
  case 0
  then show ?case by (subst unwrapType.simps) simp
next
  case (Suc n)
  then obtain r' where r': "ofType (h r) = Some r'" and st: "ofType_steps h n r' = Some t"
    by (auto split: option.splits)
  from Suc.IH [OF st Suc.prems(2)] r' show ?case
    by (subst unwrapType.simps) simp
qed

lemma ofType_steps_wrapped:
  "ofType_steps h n r = Some t \<Longrightarrow> m < n \<Longrightarrow>
   \<exists>u. ofType_steps h m r = Some u \<and> ofType (h u) \<noteq> None"
proof (induction n arbitrary: r m)
  case 0
  then show ?case by simp
next
  case (Suc n)
  then obtain r' where r': "ofType (h r) = Some r'" and st: "ofType_steps h n r' = Some t"
    by (auto split: option.splits)
  show ?case
  proof (cases m)
    case 0
    with r' show ?thesis by simp
  next
    case (Suc m')
    with Suc.prems have "m' < n" by simp
    from Suc.IH [OF st this] r' Suc show ?thesis by simp
  qed
qed

text \<open>Whenever \<open>unwrapType\<close> returns, the chain has ended after finitely many steps.\<close>

lemma unwrapType_result:
  assumes "unwrapType h r = Some y"
  shows "\<exists>n t. ofType_steps h n r = Some t \<and> ofType (h t) = None \<and> y = (h, t)"
proof (rule unwrapType.raw_induct
    [where P = "\<lambda>h r y. \<exists>n t. ofType_steps h n r = Some t \<and> ofType (h t) = None \<and> y = (h, t)",
      OF _ assms])
  fix loop :: "store \<Rightarrow> ref \<Rightarrow> (store \<times> ref) option" and g current z
  assume IH: "\<And>a b y. loop a b = Some y \<Longrightarrow>
                \<exists>n t. ofType_steps a n b = Some t \<and> ofType (a t) = None \<and> y = (a, t)"
    and eq: "(case ofType (g current) of None \<Rightarrow> Some (g, current)
              | Some next_ref \<Rightarrow> loop g next_ref) = Some z"
  show "\<exists>n t. ofType_steps g n current = Some t \<and> ofType (g t) = None \<and> z = (g, t)"
  proof (cases "ofType (g current)")
    case None
    with eq have "z = (g, current)" by simp
    with None show ?thesis by (intro exI [of _ 0] exI [of _ current]) simp
  next
    case (Some nxt)
    with eq have "loop g nxt = Some z" by simp
    from IH [OF this] obtain n t where "ofType_steps g n nxt = Some t"
      and "ofType (g t) = None" and "z = (g, t)"
      by blast
    with Some show ?thesis by (intro exI [of _ "Suc n"] exI [of _ t]) simp
  qed
qed

text \<open>In a store where every object wraps itself, \<open>unwrapType\<close> never returns.\<close>

lemma unwrapType_cyclic_store: "unwrapType cyclic_store r = None"
proof (cases "unwrapType cyclic_store r")
  case None
  then show ?thesis .
next
  case (Some y)
  from unwrapType_result [OF Some] show ?thesis by (auto simp: cyclic_store_def)
qed

text \<open>
  Claim C9. If the chain of \<open>ofType\<close> steps from a reference reaches, after some number
  \<open>n\<close> of steps, a reference without \<open>ofType\<close> (the chain is finite, so it cannot run
  into itself), then \<open>unwrapType\<close> returns, its result is that reference, every reference
  before it in the chain is a wrapper, and the store comes back unchanged.
\<close>

theorem unwrapType_terminates:
  assumes "ofType_steps h n r = Some t" and "ofType (h t) = None"
  shows "unwrapType h r = Some (h, t) \<and>
         (\<forall>m<n. \<exists>u. ofType_steps h m r = Some u \<and> ofType (h u) \<noteq> None)"
  using assms unwrapType_steps ofType_steps_wrapped by blast

theorem unwrapType_terminates_witness:
  "ofType_steps example_store 2 0 = Some 2 \<and> ofType (example_store 2) = None \<and>
   unwrapType example_store 0 = Some (example_store, 2)"
proof -
  have a: "ofType_steps example_store 2 0 = Some 2"
    by (simp add: example_store_def numeral_2_eq_2)
  have b: "ofType (example_store 2) = None"
    by (simp add: example_store_def)
  from unwrapType_terminates [OF a b] a b show ?thesis by blast
qed

text \<open>The \<open>switch\<close> of \<open>getOperationTypeName\<close> picks the root type of the kind.\<close>

lemma getOperationTypeName_root:
  "getOperationTypeName h schema k f =
     (case rootTypeForKind schema k of
        None \<Rightarrow> Some None
      | Some rootType \<Rightarrow>
          (case getFields rootType f of
             None \<Rightarrow> Some None
           | Some field \<Rightarrow>
               (case field_type field of
                  None \<Rightarrow> Some None
                | Some t \<Rightarrow>
                    (case unwrapType h t of
                       None \<Rightarrow> None
                     | Some (h', unwrapped) \<Rightarrow> Some (name (h' unwrapped))))))"
  by (cases k) (simp_all add: getOperationTypeName_def rootTypeForKind_def)

lemma getOperationTypeName_undeclared:
  assumes "declaredFieldType schema k f = None"
  shows "getOperationTypeName h schema k f = Some None"
proof (cases "rootTypeForKind schema k")
  case None
  then show ?thesis by (simp add: getOperationTypeName_root)
next
  case root: (Some rootType)
  show ?thesis
  proof (cases "getFields rootType f")
    case None
    with root show ?thesis by (simp add: getOperationTypeName_root)
  next
    case (Some field)
    with root assms have "field_type field = None"
      by (simp add: declaredFieldType_def)
    with root Some show ?thesis by (simp add: getOperationTypeName_root)
  qed
qed

lemma getOperationTypeName_declared:
  assumes "declaredFieldType schema k f = Some t"
    and "ofType_steps h n t = Some u" and "ofType (h u) = None"
  shows "getOperationTypeName h schema k f = Some (name (h u))"
proof -
  from assms(2,3) have uw: "unwrapType h t = Some (h, u)"
    by (rule unwrapType_steps)
  from assms(1) obtain rootType field where "rootTypeForKind schema k = Some rootType"
    and "getFields rootType f = Some field" and "field_type field = Some t"
    by (auto simp: declaredFieldType_def split: option.splits)
  then show ?thesis
    by (simp add: getOperationTypeName_root uw)
qed

lemma getOperationTypeName_endless:
  assumes "declaredFieldType schema k f = Some t" and "unwrapType h t = None"
  shows "getOperationTypeName h schema k f = None"
proof -
  from assms(1) obtain rootType field where "rootTypeForKind schema k = Some rootType"
    and "getFields rootType f = Some field" and "field_type field = Some t"
    by (auto simp: declaredFieldType_def split: option.splits)
  then show ?thesis
    by (simp add: getOperationTypeName_root assms(2))
qed

lemma declaredFieldType_root:
  "declaredFieldType schema k f = Some t \<Longrightarrow>
   \<exists>rootType field. rootTypeForKind schema k = Some rootType \<and>
                    getFields rootType f = Some field"
  by (auto simp: declaredFieldType_def split: option.splits)

text \<open>
  Claim C3, as the code has it. Take a schema in which the declared type of the field,
  if there is one, has a finite chain of wrappers. Then \<open>getOperationTypeName\<close> returns a
  value, and no branch of it raises. The value is \<open>null\<close> exactly when the root type of
  the kind (the query, mutation or subscription root) is missing, or the field is not
  among its fields, or no named reference ends the chain of the field's type; and
  whenever the chain ends in a reference, the value is what that reference carries as
  its name.
\<close>

theorem getOperationTypeName_absence:
  assumes "\<And>t. declaredFieldType schema k f = Some t \<Longrightarrow>
             \<exists>n u. ofType_steps h n t = Some u \<and> ofType (h u) = None"
  shows "\<exists>res. getOperationTypeName h schema k f = Some res \<and>
           (res = None \<longleftrightarrow>
              rootTypeForKind schema k = None \<or>
              (\<exists>rootType. rootTypeForKind schema k = Some rootType \<and>
                          getFields rootType f = None) \<or>
              \<not> (\<exists>t n u nm. declaredFieldType schema k f = Some t \<and>
                    ofType_steps h n t = Some u \<and> ofType (h u) = None \<and>
                    name (h u) = Some nm)) \<and>
           (\<forall>t n u. declaredFieldType schema k f = Some t \<and>
                    ofType_steps h n t = Some u \<and> ofType (h u) = None
                    \<longrightarrow> res = name (h u))"
proof (cases "declaredFieldType schema k f")
  case None
  have "getOperationTypeName h schema k f = Some None"
    using None by (rule getOperationTypeName_undeclared)
  moreover have "\<not> (\<exists>t n u nm. declaredFieldType schema k f = Some t \<and>
                    ofType_steps h n t = Some u \<and> ofType (h u) = None \<and>
                    name (h u) = Some nm)"
    using None by simp
  moreover have "\<forall>t n u. declaredFieldType schema k f = Some t \<and>
                    ofType_steps h n t = Some u \<and> ofType (h u) = None
                    \<longrightarrow> None = name (h u)"
    using None by simp
  ultimately show ?thesis by blast
next
  case (Some t)
  from assms [OF Some] obtain n u where u: "ofType_steps h n t = Some u" "ofType (h u) = None"
    by blast
  have res: "getOperationTypeName h schema k f = Some (name (h u))"
    using Some u by (rule getOperationTypeName_declared)
  have same: "name (h u') = name (h u)"
    if "declaredFieldType schema k f = Some t'" "ofType_steps h n' t' = Some u'"
       "ofType (h u') = None" for t' n' u'
    using getOperationTypeName_declared [OF that] res by simp
  from declaredFieldType_root [OF Some]
  have root: "rootTypeForKind schema k \<noteq> None"
    and fld: "\<not> (\<exists>rootType. rootTypeForKind schema k = Some rootType \<and>
                            getFields rootType f = None)"
    by auto
  have named: "(\<exists>t n u nm. declaredFieldType schema k f = Some t \<and>
                    ofType_steps h n t = Some u \<and> ofType (h u) = None \<and>
                    name (h u) = Some nm) \<longleftrightarrow> name (h u) \<noteq> None"
  proof
    assume "\<exists>t n u nm. declaredFieldType schema k f = Some t \<and>
                    ofType_steps h n t = Some u \<and> ofType (h u) = None \<and>
                    name (h u) = Some nm"
    then obtain t' n' u' nm where "declaredFieldType schema k f = Some t'"
      "ofType_steps h n' t' = Some u'" "ofType (h u') = None" "name (h u') = Some nm"
      by blast
    with same show "name (h u) \<noteq> None" by fastforce
  next
    assume "name (h u) \<noteq> None"
    then obtain nm where "name (h u) = Some nm" by blast
    with Some u show "\<exists>t n u nm. declaredFieldType schema k f = Some t \<and>
                    ofType_steps h n t = Some u \<and> ofType (h u) = None \<and>
                    name (h u) = Some nm"
      by blast
  qed
  have all: "\<forall>t n u'. declaredFieldType schema k f = Some t \<and>
                    ofType_steps h n t = Some u' \<and> ofType (h u') = None
                    \<longrightarrow> name (h u) = name (h u')"
    using same by metis
  show ?thesis
  proof (intro exI [of _ "name (h u)"] conjI)
    show "getOperationTypeName h schema k f = Some (name (h u))" by (rule res)
    show "name (h u) = None \<longleftrightarrow>
              rootTypeForKind schema k = None \<or>
              (\<exists>rootType. rootTypeForKind schema k = Some rootType \<and>
                          getFields rootType f = None) \<or>
              \<not> (\<exists>t n u nm. declaredFieldType schema k f = Some t \<and>
                    ofType_steps h n t = Some u \<and> ofType (h u) = None \<and>
                    name (h u) = Some nm)"
      unfolding named using root fld by blast
    show "\<forall>t n u'. declaredFieldType schema k f = Some t \<and>
                    ofType_steps h n t = Some u' \<and> ofType (h u') = None
                    \<longrightarrow> name (h u) = name (h u')"
      by (rule all)
  qed
qed

text \<open>
  Instances, one for each kind and one for each way to \<open>null\<close>: the query field \<open>users\<close>
  resolves to \<open>User\<close> through two wrappers, the mutation field \<open>createOrder\<close> to \<open>Order\<close>,
  the subscription field \<open>userAdded\<close> to \<open>User\<close>; the query field \<open>anything\<close> ends in a
  type without a name, \<open>orders\<close> is not a field of the query root, and the schema with
  a query root only has no mutation root.
\<close>

theorem getOperationTypeName_absence_witness:
  "getOperationTypeName example_store query_schema Query (js ''users'')
     = Some (Some (js ''User'')) \<and>
   getOperationTypeName example_store mutation_schema Mutation (js ''createOrder'')
     = Some (Some (js ''Order'')) \<and>
   getOperationTypeName example_store subscription_schema Subscription (js ''userAdded'')
     = Some (Some (js ''User'')) \<and>
   getOperationTypeName example_store query_schema Query (js ''anything'') = Some None \<and>
   getOperationTypeName example_store query_schema Query (js ''orders'') = Some None \<and>
   getOperationTypeName example_store query_schema Mutation (js ''users'') = Some None"
proof -
  have value_of: "getOperationTypeName example_store schema k f = Some (name (example_store u))"
    if d: "declaredFieldType schema k f = Some t"
      and a: "ofType_steps example_store n t = Some u"
      and b: "ofType (example_store u) = None"
    for schema k f t n u
  proof -
    have fin: "\<exists>n u. ofType_steps example_store n t' = Some u \<and> ofType (example_store u) = None"
      if "declaredFieldType schema k f = Some t'" for t'
      using that d a b by auto
    from getOperationTypeName_absence [of schema k f example_store, OF fin]
    obtain res where r: "getOperationTypeName example_store schema k f = Some res"
      and v: "\<forall>t n u. declaredFieldType schema k f = Some t \<and>
                    ofType_steps example_store n t = Some u \<and> ofType (example_store u) = None
                    \<longrightarrow> res = name (example_store u)"
      by blast
    from v d a b have "res = name (example_store u)" by blast
    with r show ?thesis by simp
  qed
  have null_of: "getOperationTypeName example_store schema k f = Some None"
    if d: "declaredFieldType schema k f = None"
      and c: "rootTypeForKind schema k = None \<or>
              (\<exists>rootType. rootTypeForKind schema k = Some rootType \<and>
                          getFields rootType f = None)"
    for schema k f
  proof -
    have fin: "\<exists>n u. ofType_steps example_store n t' = Some u \<and> ofType (example_store u) = None"
      if "declaredFieldType schema k f = Some t'" for t'
      using that d by simp
    from getOperationTypeName_absence [of schema k f example_store, OF fin] c
    show ?thesis by auto
  qed
  have js_ne: "js ''users'' \<noteq> js ''anything''" "js ''orders'' \<noteq> js ''users''"
    "js ''orders'' \<noteq> js ''anything''"
    by code_simp+
  have d1: "declaredFieldType query_schema Query (js ''users'') = Some 0"
    using js_ne by (simp add: declaredFieldType_def rootTypeForKind_def query_schema_def)
  have d2: "declaredFieldType mutation_schema Mutation (js ''createOrder'') = Some 3"
    by (simp add: declaredFieldType_def rootTypeForKind_def mutation_schema_def)
  have d3: "declaredFieldType subscription_schema Subscription (js ''userAdded'') = Some 1"
    by (simp add: declaredFieldType_def rootTypeForKind_def subscription_schema_def)
  have d4: "declaredFieldType query_schema Query (js ''anything'') = Some 5"
    by (simp add: declaredFieldType_def rootTypeForKind_def query_schema_def)
  have d5: "declaredFieldType query_schema Query (js ''orders'') = None"
    and c5: "\<exists>rootType. rootTypeForKind query_schema Query = Some rootType \<and>
                        getFields rootType (js ''orders'') = None"
    using js_ne by (simp_all add: declaredFieldType_def rootTypeForKind_def query_schema_def)
  have d6: "declaredFieldType query_schema Mutation (js ''users'') = None"
    and c6: "rootTypeForKind query_schema Mutation = None"
    by (simp_all add: declaredFieldType_def rootTypeForKind_def query_schema_def)
  have s1: "ofType_steps example_store 2 0 = Some 2"
    and s2: "ofType_steps example_store 1 3 = Some 4"
    and s3: "ofType_steps example_store 1 1 = Some 2"
    and s4: "ofType_steps example_store 0 5 = Some 5"
    by (simp_all add: example_store_def numeral_2_eq_2)
  have e: "ofType (example_store 2) = None" "ofType (example_store 4) = None"
    "ofType (example_store 5) = None"
    and nm: "name (example_store 2) = Some (js ''User'')"
      "name (example_store 4) = Some (js ''Order'')" "name (example_store 5) = None"
    by (simp_all add: example_store_def)
  from value_of [OF d1 s1 e(1)] value_of [OF d2 s2 e(2)] value_of [OF d3 s3 e(1)]
    value_of [OF d4 s4 e(3)] null_of [OF d5] null_of [OF d6] c5 c6
  show ?thesis unfolding nm by blast
qed

text \<open>
  Over the store in which every object wraps itself, the query root exists and declares
  \<open>users\<close>, and \<open>getOperationTypeName\<close> gives no value at all: the loop does not end.
\<close>

theorem getOperationTypeName_endless_counterexample:
  "rootTypeForKind query_schema Query \<noteq> None \<and>
   declaredFieldType query_schema Query (js ''users'') = Some 0 \<and>
   ofType (cyclic_store 0) = Some 0 \<and>
   getOperationTypeName cyclic_store query_schema Query (js ''users'') = None"
proof -
  have ne: "js ''users'' \<noteq> js ''anything''"
    by code_simp
  have a: "rootTypeForKind query_schema Query \<noteq> None"
    by (simp add: rootTypeForKind_def query_schema_def)
  have d: "declaredFieldType query_schema Query (js ''users'') = Some 0"
    using ne by (simp add: declaredFieldType_def rootTypeForKind_def query_schema_def)
  have c: "ofType (cyclic_store 0) = Some 0"
    by (simp add: cyclic_store_def)
  have "getOperationTypeName cyclic_store query_schema Query (js ''users'') = None"
    using d unwrapType_cyclic_store by (rule getOperationTypeName_endless)
  with a d c show ?thesis by blast
qed

section \<open>calculatePrefixWithTypeName\<close>

text \<open>
  With no \<open>skipDirs\<close> option the effective skip set is the default one. For a host that
  folds the names of the default set to themselves (they are in lower case), the rows of
  the decision table with an overlap read as follows: nothing when the normalized
  candidates are equal; otherwise the normalized directory when the directory name is
  not empty and is not in the skip set, compared without regard to case, and nothing
  else.
\<close>

lemma calculatePrefixWithTypeName_default_options:
  assumes "skipDirs opts = None"
    and "map (toLowerCase H) DEFAULT_SKIP_DIRS = DEFAULT_SKIP_DIRS"
    and "hasSignificantOverlap H typeName (fileName (extractPathInfo p opts))"
  shows "calculatePrefixWithTypeName H p typeName opts =
           (if toPascalCase H (dirName (extractPathInfo p opts)) =
               toPascalCase H (fileName (extractPathInfo p opts)) then []
            else if dirName (extractPathInfo p opts) \<noteq> [] \<and>
                    toLowerCase H (dirName (extractPathInfo p opts))
                      \<notin> set (map (toLowerCase H) (effectiveSkipDirs opts))
            then toPascalCase H (dirName (extractPathInfo p opts))
            else [])"
proof -
  have "effectiveSkipDirs opts = DEFAULT_SKIP_DIRS"
    using assms(1) by (simp add: effectiveSkipDirs_def)
  then have sk: "map (toLowerCase H) (effectiveSkipDirs opts) = DEFAULT_SKIP_DIRS"
    by (simp add: assms(2))
  have em: "toPascalCase H d = []" if "d = []" for d
    using that by (simp add: toPascalCase_Nil)
  show ?thesis
    unfolding sk using assms(3) em [of "dirName (extractPathInfo p opts)"]
    by (auto simp: calculatePrefixWithTypeName_def Let_def)
qed

text \<open>
  Claim C1. The check whether the directory is meaningful reads the default skip
  set, not the caller's. With \<open>skipDirs = ['components']\<close>, the path
  \<open>/proj/graphql/UserList.vue\<close> and the type \<open>User\<close>: the type overlaps the file
  candidate, the normalized directory \<open>Graphql\<close> differs from the normalized file
  \<open>UserList\<close>, the directory candidate \<open>graphql\<close> is not empty and is not in the caller's
  skip set, and yet the result is empty instead of \<open>Graphql\<close>.
\<close>

theorem calculatePrefixWithTypeName_ignores_skipDirs:
  "effectiveSkipDirs \<lparr>skipDirs = Some [js ''components'']\<rparr> = [js ''components''] \<and>
   dirName (extractPathInfo (js ''/proj/graphql/UserList.vue'')
     \<lparr>skipDirs = Some [js ''components'']\<rparr>) = js ''graphql'' \<and>
   fileName (extractPathInfo (js ''/proj/graphql/UserList.vue'')
     \<lparr>skipDirs = Some [js ''components'']\<rparr>) = js ''UserList'' \<and>
   hasSignificantOverlap latin1Host (js ''User'') (js ''UserList'') \<and>
   toPascalCase latin1Host (js ''graphql'') = js ''Graphql'' \<and>
   toPascalCase latin1Host (js ''UserList'') = js ''UserList'' \<and>
   js ''Graphql'' \<noteq> js ''UserList'' \<and>
   js ''graphql'' \<noteq> [] \<and>
   toLowerCase latin1Host (js ''graphql'')
     \<notin> set (map (toLowerCase latin1Host) [js ''components'']) \<and>
   calculatePrefixWithTypeName latin1Host (js ''/proj/graphql/UserList.vue'') (js ''User'')
     \<lparr>skipDirs = Some [js ''components'']\<rparr> = []"
proof -
  let ?o = "\<lparr>skipDirs = Some [js ''components'']\<rparr>"
  have a: "effectiveSkipDirs ?o = [js ''components'']"
    by code_simp
  have b: "dirName (extractPathInfo (js ''/proj/graphql/UserList.vue'') ?o) = js ''graphql''"
    by code_simp
  have c: "fileName (extractPathInfo (js ''/proj/graphql/UserList.vue'') ?o) = js ''UserList''"
    by code_simp
  have d: "hasSignificantOverlap latin1Host (js ''User'') (js ''UserList'')"
    by code_simp
  have e: "toPascalCase latin1Host (js ''graphql'') = js ''Graphql''"
    by code_simp
  have f: "toPascalCase latin1Host (js ''UserList'') = js ''UserList''"
    by code_simp
  have g: "toLowerCase latin1Host (js ''graphql'')
             \<notin> set (map (toLowerCase latin1Host) [js ''components''])"
    by code_simp
  have i: "js ''Graphql'' \<noteq> js ''UserList''" "js ''graphql'' \<noteq> []"
    by code_simp+
  have h: "calculatePrefixWithTypeName latin1Host (js ''/proj/graphql/UserList.vue'')
             (js ''User'') ?o = []"
    by code_simp
  from a b c d e f g h i show ?thesis by blast
qed

text \<open>
  Claim C5, as the code has it. For \<open>src/queries/AssignmentMessages.gql\<close>, the type
  \<open>AssignmentMessage\<close> and the default skip set: \<open>queries\<close> is skipped, the directory
  candidate is \<open>src\<close> and the file candidate \<open>AssignmentMessages\<close>; the overlap test is
  true; the normalized candidates \<open>Src\<close> and \<open>AssignmentMessages\<close> differ; \<open>src\<close> is in the
  default skip set, so the prefix is empty and the expected name is \<open>AssignmentMessage\<close>.
\<close>

theorem scenario_assignment_messages:
  "dirName (extractPathInfo (js ''src/queries/AssignmentMessages.gql'') defaultOptions)
     = js ''src'' \<and>
   fileName (extractPathInfo (js ''src/queries/AssignmentMessages.gql'') defaultOptions)
     = js ''AssignmentMessages'' \<and>
   hasSignificantOverlap latin1Host (js ''AssignmentMessage'') (js ''AssignmentMessages'') \<and>
   toPascalCase latin1Host (js ''src'') = js ''Src'' \<and>
   toPascalCase latin1Host (js ''AssignmentMessages'') = js ''AssignmentMessages'' \<and>
   toLowerCase latin1Host (js ''src'') \<in> set DEFAULT_SKIP_DIRS \<and>
   calculatePrefixWithTypeName latin1Host (js ''src/queries/AssignmentMessages.gql'')
     (js ''AssignmentMessage'') defaultOptions = [] \<and>
   generateExpectedName latin1Host [] (js ''AssignmentMessage'') = js ''AssignmentMessage''"
proof -
  let ?p = "js ''src/queries/AssignmentMessages.gql''"
  have a: "dirName (extractPathInfo ?p defaultOptions) = js ''src''"
    by code_simp
  have b: "fileName (extractPathInfo ?p defaultOptions) = js ''AssignmentMessages''"
    by code_simp
  have c: "hasSignificantOverlap latin1Host (js ''AssignmentMessage'') (js ''AssignmentMessages'')"
    by code_simp
  have d: "toPascalCase latin1Host (js ''src'') = js ''Src''"
    by code_simp
  have e: "toPascalCase latin1Host (js ''AssignmentMessages'') = js ''AssignmentMessages''"
    by code_simp
  have f: "toLowerCase latin1Host (js ''src'') \<in> set DEFAULT_SKIP_DIRS"
    by code_simp
  have g: "calculatePrefixWithTypeName latin1Host ?p (js ''AssignmentMessage'') defaultOptions
             = []"
    by code_simp
  have h: "generateExpectedName latin1Host [] (js ''AssignmentMessage'')
             = js ''AssignmentMessage''"
    by code_simp
  from a b c d e f g h show ?thesis by blast
qed

text \<open>The normalized directory and file candidates of that path are not equal.\<close>

theorem scenario_assignment_messages_counterexample:
  "toPascalCase latin1Host
     (dirName (extractPathInfo (js ''src/queries/AssignmentMessages.gql'') defaultOptions))
     \<noteq> toPascalCase latin1Host
         (fileName (extractPathInfo (js ''src/queries/AssignmentMessages.gql'') defaultOptions))"
  by code_simp

end
